theory Spec2Isabelle
  imports Main "HOL-Library.Word" "HOL-Library.Multiset"
begin

section \<open>Post list helpers of \<^verbatim>\<open>src/utils/post.ts\<close>\<close>

subsection \<open>JavaScript values\<close>

text \<open>
  A JavaScript string is a sequence of UTF-16 code units. The literals of the source are
  written out as code units; \<open>ascii\<close> converts an ASCII literal.
\<close>

type_synonym jsstring = "16 word list"

definition ascii :: "string \<Rightarrow> jsstring" where
  "ascii s = map (\<lambda>c. word_of_nat (of_char c)) s"

text \<open>
  A number is a double. Those the source computes with have integer values (epoch
  milliseconds, parsed digit runs, results of \<open>localeCompare\<close>) or are \<open>Infinity\<close>:
  \<open>Fin n\<close> is the double whose value is the integer \<open>n\<close>, \<open>PosInf\<close> and \<open>NegInf\<close> are the
  two infinities and \<open>NaN\<close> is the invalid result.
\<close>

datatype jsnum = Fin int | PosInf | NegInf | NaN

text \<open>
  The operator \<open>-\<close> on numbers. The difference of two finite numbers is kept exact:
  the source only hands it to the sort, which reads its sign, and rounding a difference
  to a double never changes its sign.
\<close>

fun js_sub :: "jsnum \<Rightarrow> jsnum \<Rightarrow> jsnum" where
  "js_sub NaN _ = NaN"
| "js_sub _ NaN = NaN"
| "js_sub (Fin a) (Fin b) = Fin (a - b)"
| "js_sub (Fin _) PosInf = NegInf"
| "js_sub (Fin _) NegInf = PosInf"
| "js_sub PosInf PosInf = NaN"
| "js_sub PosInf _ = PosInf"
| "js_sub NegInf NegInf = NaN"
| "js_sub NegInf _ = NegInf"

text \<open>The operator \<open>!==\<close> on numbers: \<open>NaN\<close> differs from everything, itself included.\<close>

fun js_strict_neq :: "jsnum \<Rightarrow> jsnum \<Rightarrow> bool" where
  "js_strict_neq NaN _ = True"
| "js_strict_neq _ NaN = True"
| "js_strict_neq a b = (a \<noteq> b)"

text \<open>The operators \<open><\<close> and \<open><=\<close> on numbers; every comparison with \<open>NaN\<close> is false.\<close>

fun js_lt :: "jsnum \<Rightarrow> jsnum \<Rightarrow> bool" where
  "js_lt NaN _ = False"
| "js_lt _ NaN = False"
| "js_lt (Fin a) (Fin b) = (a < b)"
| "js_lt (Fin _) PosInf = True"
| "js_lt (Fin _) NegInf = False"
| "js_lt PosInf _ = False"
| "js_lt NegInf NegInf = False"
| "js_lt NegInf _ = True"


subsection \<open>Built-ins of the runtime\<close>

text \<open>
  \<open>String.prototype.split\<close> with a one-unit separator: the pieces between the
  separators, in order; a string without separator is the only piece.
\<close>

fun split_on :: "'a \<Rightarrow> 'a list \<Rightarrow> 'a list list" where
  "split_on sep [] = [] # []"
| "split_on sep (c # cs) =
     (if c = sep then [] # split_on sep cs
      else (case split_on sep cs of
              [] \<Rightarrow> (c # []) # []
            | p # ps \<Rightarrow> (c # p) # ps))"

text \<open>The class \<open>\d\<close> of a regular expression without the unicode flag: \<open>0\<close> to \<open>9\<close>.\<close>

definition is_digit :: "16 word \<Rightarrow> bool" where
  "is_digit c = (0x30 \<le> c \<and> c \<le> 0x39)"

definition digit_value :: "16 word \<Rightarrow> int" where
  "digit_value c = uint c - 0x30"

text \<open>
  \<open>filename.match(/^(\d+)/)\<close>: the first capture group, the longest run of digits at
  the start of the string, or no match (\<open>null\<close>) when the string does not start with a
  digit.
\<close>

definition match_leading_digits :: "jsstring \<Rightarrow> jsstring option" where
  "match_leading_digits s =
     (let ds = takeWhile is_digit s in if ds = [] then None else Some ds)"

text \<open>
  The double of a non-negative integer, by the rounding of the language (to the
  nearest double, a tie going to the even significand). An integer below \<open>2 ^ 53\<close> is a
  double. A greater one has \<open>bit_length n\<close> binary digits, of which a double keeps the
  leading 53: \<open>q\<close> is their value, \<open>r\<close> the value of the \<open>e\<close> digits that are cut off, and
  \<open>q\<close> is stepped up when \<open>r\<close> is more than half a unit of \<open>q\<close>, or exactly half and \<open>q\<close>
  is odd. A result of \<open>2 ^ 1024\<close> or more is \<open>Infinity\<close>.
\<close>

function bit_length :: "int \<Rightarrow> nat" where
  "bit_length n = (if n \<le> 0 then 0 else Suc (bit_length (n div 2)))"
  by pat_completeness auto
termination
  by (relation "measure nat") auto

declare bit_length.simps [simp del]

definition round_to_double :: "int \<Rightarrow> jsnum" where
  "round_to_double n =
     (if n < 2 ^ 53 then Fin n
      else
        let e = bit_length n - 53;
            q = n div 2 ^ e;
            r = n mod 2 ^ e;
            half = 2 ^ (e - 1);
            rounded = (if half < r \<or> (r = half \<and> odd q) then q + 1 else q) * 2 ^ e
        in if 2 ^ 1024 \<le> rounded then PosInf else Fin rounded)"

text \<open>
  \<open>parseInt(s, 10)\<close> on a string without leading white space or sign, which is all
  the source passes to it: the digits at the start of the string are accumulated from
  the left into an integer, and the result is the double of that integer; without a
  digit the result is \<open>NaN\<close>. (The language lets an implementation read the digits
  after the twentieth as zeros; the model reads all of them.)
\<close>

definition parseInt10 :: "jsstring \<Rightarrow> jsnum" where
  "parseInt10 s =
     (let ds = takeWhile is_digit s
      in if ds = [] then NaN
         else round_to_double (foldl (\<lambda>acc d. acc * 10 + digit_value d) 0 ds))"

text \<open>
  Modelled from the spec: \<open>Array.prototype.sort\<close> with a comparison function is a
  built-in of the runtime and not part of the repository. The language standard makes it
  a stable sort that places \<open>x\<close> before \<open>y\<close> unless the comparison of \<open>x\<close> with \<open>y\<close> is
  positive, a \<open>NaN\<close> result counting as \<open>+0\<close>; the spec asks for "any stable sort
  algorithm". The model is the stable insertion sort: only the sign of the comparison
  is read. The source's array is reordered in place and returned; the model returns the
  reordered list.
\<close>

fun js_positive :: "jsnum \<Rightarrow> bool" where
  "js_positive (Fin n) = (0 < n)"
| "js_positive PosInf = True"
| "js_positive NegInf = False"
| "js_positive NaN = False"

fun sort_insert :: "('a \<Rightarrow> 'a \<Rightarrow> jsnum) \<Rightarrow> 'a \<Rightarrow> 'a list \<Rightarrow> 'a list" where
  "sort_insert cmp x [] = [x]"
| "sort_insert cmp x (y # ys) =
     (if js_positive (cmp x y) then y # sort_insert cmp x ys else x # y # ys)"

definition array_sort :: "('a \<Rightarrow> 'a \<Rightarrow> jsnum) \<Rightarrow> 'a list \<Rightarrow> 'a list" where
  "array_sort cmp xs = foldr (sort_insert cmp) xs []"

text \<open>
  Modelled from the spec: \<open>getCollection\<close> belongs to the content framework
  (\<open>astro:content\<close>), not to the repository. The spec describes it as "retrieve
  collection of records of a given collection kind, optionally applying a per-record
  inclusion predicate"; the model takes the stored records of the collection kind and
  keeps those the predicate accepts, in their stored order. The promise it returns is
  modelled by its value.
\<close>

definition getCollection :: "'a list \<Rightarrow> ('a \<Rightarrow> bool) \<Rightarrow> 'a list" where
  "getCollection stored keep = filter keep stored"

text \<open>
  \<open>Set\<close> keeps its elements in insertion order; \<open>add\<close> of an element that is already
  there changes nothing. \<open>Array.from\<close> of the set is the list itself.
\<close>

definition set_add :: "'a list \<Rightarrow> 'a \<Rightarrow> 'a list" where
  "set_add s x = (if x \<in> set s then s else s @ [x])"

subsection \<open>Collection entries\<close>

text \<open>
  A \<open>CollectionEntry\<close> as far as the source reads it: \<open>slug\<close> and, under \<open>data\<close>, a valid
  \<open>pubDate\<close> (its \<open>valueOf()\<close>, milliseconds since the epoch), an optional \<open>category\<close> and
  an optional \<open>draft\<close> flag. An optional field is \<open>None\<close> when the key is absent or holds
  \<open>undefined\<close>.
\<close>

record post_data =
  pubDate :: int
  category :: "jsstring option"
  draft :: "bool option"

record entry =
  slug :: jsstring
  data :: post_data

subsection \<open>The functions of the source\<close>

text \<open>The operator \<open>!\<close> on an optional boolean: \<open>undefined\<close> is falsy.\<close>

fun js_not :: "bool option \<Rightarrow> bool" where
  "js_not None = True"
| "js_not (Some b) = (\<not> b)"

text \<open>\<open>getFilteredPosts\<close>; \<open>isProd\<close> is the flag \<open>import.meta.env.PROD\<close>.\<close>

definition getFilteredPosts :: "bool \<Rightarrow> entry list \<Rightarrow> entry list" where
  "getFilteredPosts isProd stored =
     getCollection stored (\<lambda>e. if isProd then js_not (draft (data e)) else True)"

text \<open>\<open>getSortedPosts\<close> and its comparison function.\<close>

definition dateCompare :: "entry \<Rightarrow> entry \<Rightarrow> jsnum" where
  "dateCompare a b = js_sub (Fin (pubDate (data b))) (Fin (pubDate (data a)))"

definition getSortedPosts :: "entry list \<Rightarrow> entry list" where
  "getSortedPosts posts = array_sort dateCompare posts"

text \<open>\<open>extractSequenceNumber\<close>.\<close>

definition slash :: "16 word" where
  "slash = 0x2F"

definition extractSequenceNumber :: "jsstring \<Rightarrow> jsnum" where
  "extractSequenceNumber s =
     (let parts = split_on slash s;
          filename = parts ! (length parts - 1)
      in case match_leading_digits filename of
           Some m \<Rightarrow> parseInt10 m
         | None \<Rightarrow> PosInf)"

text \<open>
  The fallback literal of the source, three code units: U+672A, U+5206, U+7C7B
  ("uncategorized" in Chinese).
\<close>

definition uncategorized :: jsstring where
  "uncategorized = [0x672A, 0x5206, 0x7C7B]"

text \<open>
  The operator \<open>||\<close> on an optional string: the right operand replaces a falsy left
  operand, that is \<open>undefined\<close> or the empty string.
\<close>

fun js_or :: "jsstring option \<Rightarrow> jsstring \<Rightarrow> jsstring" where
  "js_or None d = d"
| "js_or (Some s) d = (if s = [] then d else s)"

text \<open>
  The expression \<open>('category' in e.data ? e.data.category : undefined) || <fallback>\<close>,
  which the source writes out three times.
\<close>

definition categoryOf :: "entry \<Rightarrow> jsstring" where
  "categoryOf e = js_or (category (data e)) uncategorized"

text \<open>
  \<open>getSortedPostsByCategory\<close> and its comparison function. \<open>lc a b\<close> stands for
  \<open>a.localeCompare(b, 'zh-CN')\<close>, the collation of the runtime, a parameter of the
  model; its result is a negative, zero or positive integer.
\<close>

definition categoryComparator :: "(jsstring \<Rightarrow> jsstring \<Rightarrow> int) \<Rightarrow> entry \<Rightarrow> entry \<Rightarrow> jsnum" where
  "categoryComparator lc a b =
     (let categoryA = categoryOf a;
          categoryB = categoryOf b;
          categoryCompare = lc categoryA categoryB
      in if categoryCompare \<noteq> 0 then Fin categoryCompare
         else
           let seqA = extractSequenceNumber (slug a);
               seqB = extractSequenceNumber (slug b)
           in if js_strict_neq seqA seqB then js_sub seqA seqB
              else js_sub (Fin (pubDate (data b))) (Fin (pubDate (data a))))"

definition getSortedPostsByCategory ::
  "(jsstring \<Rightarrow> jsstring \<Rightarrow> int) \<Rightarrow> entry list \<Rightarrow> entry list" where
  "getSortedPostsByCategory lc posts = array_sort (categoryComparator lc) posts"

text \<open>\<open>isSameCategory\<close>: \<open>===\<close> on two optional strings.\<close>

definition isSameCategory :: "jsstring option \<Rightarrow> jsstring option \<Rightarrow> bool" where
  "isSameCategory category1 category2 = (category1 = category2)"

text \<open>\<open>getUniqueCategories\<close>.\<close>

definition getUniqueCategories ::
  "(jsstring \<Rightarrow> jsstring \<Rightarrow> int) \<Rightarrow> entry list \<Rightarrow> jsstring list" where
  "getUniqueCategories lc posts =
     (let categoriesSet = foldl (\<lambda>s post. set_add s (categoryOf post)) [] posts
      in array_sort (\<lambda>a b. Fin (lc a b)) categoriesSet)"

subsection \<open>The collation\<close>

text \<open>
  What the standard calls a consistent comparison function, for \<open>localeCompare\<close>: a
  string compares equal to itself, swapping the operands swaps the sign, and "not
  after" is transitive.
\<close>

definition consistent_comparator :: "('a \<Rightarrow> 'a \<Rightarrow> int) \<Rightarrow> bool" where
  "consistent_comparator lc =
     ((\<forall>a. lc a a = 0) \<and>
      (\<forall>a b. (lc a b < 0) = (0 < lc b a)) \<and>
      (\<forall>a b c. lc a b \<le> 0 \<and> lc b c \<le> 0 \<longrightarrow> lc a c \<le> 0))"

text \<open>
  One consistent comparison, by code units, for running the functions on concrete
  input.
\<close>

fun codeunit_compare :: "jsstring \<Rightarrow> jsstring \<Rightarrow> int" where
  "codeunit_compare [] [] = 0"
| "codeunit_compare [] (_ # _) = -1"
| "codeunit_compare (_ # _) [] = 1"
| "codeunit_compare (x # xs) (y # ys) =
     (if x < y then -1 else if y < x then 1 else codeunit_compare xs ys)"

subsection \<open>Notions of the specification\<close>

text \<open>
  The specification's reading of \<open>extractSequenceNumber\<close>, written from its words and
  independently of the source: the last segment is what follows the last path
  separator, the sequence number is the value of its leading digits in positional
  notation, and an identifier without leading digits has the infinite sentinel.
\<close>

definition last_segment :: "jsstring \<Rightarrow> jsstring" where
  "last_segment s = rev (takeWhile (\<lambda>c. c \<noteq> slash) (rev s))"

fun decimal_value :: "jsstring \<Rightarrow> int" where
  "decimal_value [] = 0"
| "decimal_value (d # ds) = digit_value d * 10 ^ length ds + decimal_value ds"

definition sequence_of_identifier :: "jsstring \<Rightarrow> jsnum" where
  "sequence_of_identifier s =
     (let ds = takeWhile is_digit (last_segment s)
      in if ds = [] then PosInf else Fin (decimal_value ds))"

text \<open>
  The specification's integer is exact and unbounded; \<open>as_number\<close> is what such a value
  is as a number of the runtime.
\<close>

fun as_number :: "jsnum \<Rightarrow> jsnum" where
  "as_number (Fin v) = round_to_double v"
| "as_number x = x"

text \<open>The sort places \<open>x\<close> before \<open>y\<close> when their comparison is not positive.\<close>

definition not_after :: "('a \<Rightarrow> 'a \<Rightarrow> jsnum) \<Rightarrow> 'a \<Rightarrow> 'a \<Rightarrow> bool" where
  "not_after cmp x y = (\<not> js_positive (cmp x y))"

text \<open>The three keys of the category sort, in priority order, as one relation.\<close>

definition key_le :: "(jsstring \<Rightarrow> jsstring \<Rightarrow> int) \<Rightarrow> entry \<Rightarrow> entry \<Rightarrow> bool" where
  "key_le lc x y =
     (lc (categoryOf x) (categoryOf y) < 0 \<or>
      lc (categoryOf x) (categoryOf y) = 0 \<and>
        (js_lt (extractSequenceNumber (slug x)) (extractSequenceNumber (slug y)) \<or>
         extractSequenceNumber (slug x) = extractSequenceNumber (slug y) \<and>
           pubDate (data y) \<le> pubDate (data x)))"


subsection \<open>Example entries\<close>

text \<open>The three records of the specification's end-to-end example.\<close>

definition post_x :: entry where
  "post_x = \<lparr>slug = ascii ''a/2-x'',
     data = \<lparr>pubDate = 100, category = Some (ascii ''A''), draft = None\<rparr>\<rparr>"

definition post_y :: entry where
  "post_y = \<lparr>slug = ascii ''a/1-y'',
     data = \<lparr>pubDate = 200, category = Some (ascii ''A''), draft = None\<rparr>\<rparr>"

definition post_z :: entry where
  "post_z = \<lparr>slug = ascii ''b/z'',
     data = \<lparr>pubDate = 50, category = Some (ascii ''B''), draft = None\<rparr>\<rparr>"

text \<open>
  Entries without a sequence number: one without category, one whose category is the
  empty string, one that names the fallback literal as its category, and a later one
  with an empty category.
\<close>

definition absent_category_post :: entry where
  "absent_category_post = \<lparr>slug = ascii ''notes/intro'',
     data = \<lparr>pubDate = 0, category = None, draft = None\<rparr>\<rparr>"

definition empty_category_post :: entry where
  "empty_category_post = \<lparr>slug = ascii ''notes/1-first'',
     data = \<lparr>pubDate = 0, category = Some [], draft = None\<rparr>\<rparr>"

definition labelled_uncategorized_post :: entry where
  "labelled_uncategorized_post = \<lparr>slug = ascii ''notes/intro'',
     data = \<lparr>pubDate = 0, category = Some uncategorized, draft = None\<rparr>\<rparr>"

definition unnumbered_post :: entry where
  "unnumbered_post = \<lparr>slug = ascii ''notes/about'',
     data = \<lparr>pubDate = 5, category = Some [], draft = Some False\<rparr>\<rparr>"



text \<open>The same entry with an empty category taken away.\<close>

definition absent_if_empty :: "entry \<Rightarrow> entry" where
  "absent_if_empty e =
     (if category (data e) = Some [] then e\<lparr>data := (data e)\<lparr>category := None\<rparr>\<rparr> else e)"

section \<open>Properties\<close>

subsection \<open>Rounding to a double\<close>

lemma bit_length_bounds: "0 < n \<Longrightarrow> 2 ^ (bit_length n - 1) \<le> n \<and> n < 2 ^ bit_length n"
proof (induction n rule: bit_length.induct)
  case (1 n)
  show ?case
  proof (cases "n = 1")
    case True
    then show ?thesis by (simp add: bit_length.simps[of 1] bit_length.simps[of 0])
  next
    case False
    with "1.prems" have h: "0 < n div 2" by simp
    from "1.IH"[OF _ h] "1.prems"
    have ih: "2 ^ (bit_length (n div 2) - 1) \<le> n div 2" "n div 2 < 2 ^ bit_length (n div 2)"
      by auto
    have pos: "0 < bit_length (n div 2)" using h by (simp add: bit_length.simps[of "n div 2"])
    have bl: "bit_length n = Suc (bit_length (n div 2))"
      using "1.prems" by (simp add: bit_length.simps[of n])
    define p :: int where "p = 2 ^ (bit_length (n div 2) - 1)"
    have e1: "2 ^ (bit_length n - 1) = 2 * p"
      using pos bl unfolding p_def by (cases "bit_length (n div 2)") auto
    have e2: "2 ^ bit_length n = 4 * p"
      using pos bl unfolding p_def by (cases "bit_length (n div 2)") auto
    have e3: "2 ^ bit_length (n div 2) = 2 * p"
      using pos unfolding p_def by (cases "bit_length (n div 2)") auto
    have "p \<le> n div 2" "n div 2 < 2 * p" using ih e3 by (simp_all add: p_def)
    then have "2 * p \<le> n" "n < 4 * p" by linarith+
    then show ?thesis by (simp only: e1 e2)
  qed
qed


lemma round_to_double_exact: "n \<le> 2 ^ 53 \<Longrightarrow> round_to_double n = Fin n"
proof (cases "n < 2 ^ 53")
  case True
  then show ?thesis by (simp add: round_to_double_def)
next
  case False
  assume "n \<le> 2 ^ 53"
  with False have "n = 2 ^ 53" by simp
  moreover have "round_to_double (2 ^ 53) = Fin (2 ^ 53)" by code_simp
  ultimately show ?thesis by simp
qed

lemma round_to_double_cases: "round_to_double n = PosInf \<or> (\<exists>m. round_to_double n = Fin m)"
  by (simp add: round_to_double_def Let_def)

lemma round_to_double_error:
  assumes n: "0 \<le> n" and m: "round_to_double n = Fin m"
  shows "\<bar>m - n\<bar> * 2 ^ 53 \<le> n"
proof (cases "n < 2 ^ 53")
  case True
  then show ?thesis using n m by (simp add: round_to_double_def)
next
  case False
  then have pos: "0 < n" by simp
  define e where "e = bit_length n - 53"
  define q where "q = n div 2 ^ e"
  define r where "r = n mod 2 ^ e"
  define half :: int where "half = 2 ^ (e - 1)"
  note b = bit_length_bounds[OF pos]
  have "(2::int) ^ 53 < 2 ^ bit_length n" using False b by linarith
  then have bl: "53 < bit_length n" by (rule power_less_imp_less_exp[rotated]) simp
  then have e1: "1 \<le> e" and ble: "bit_length n - 1 = (e - 1) + 53"
    by (simp_all add: e_def)
  have two: "(2::int) ^ e = 2 * half"
    using e1 unfolding half_def by (cases e) auto
  have lo: "half * 2 ^ 53 \<le> n"
    using b ble by (simp add: half_def power_add)
  have "n = q * 2 ^ e + r"
    unfolding q_def r_def by (rule div_mult_mod_eq[symmetric])
  then have nqr: "n = q * (2 * half) + r" by (simp only: two)
  have "0 \<le> r" "r < 2 ^ e" unfolding r_def by simp_all
  then have r: "0 \<le> r" "r < 2 * half" by (simp_all only: two)
  define R where "R = (if half < r \<or> (r = half \<and> odd q) then q + 1 else q) * 2 ^ e"
  have "round_to_double n = (if 2 ^ 1024 \<le> R then PosInf else Fin R)"
    unfolding round_to_double_def Let_def R_def half_def r_def q_def e_def
    using False by (simp only: if_False)
  then have "m = R" using m by (auto split: if_splits)
  then have m_eq: "m = (if half < r \<or> (r = half \<and> odd q) then q + 1 else q) * (2 * half)"
    by (simp only: R_def two)
  have "\<bar>m - n\<bar> \<le> half"
  proof (cases "half < r \<or> (r = half \<and> odd q)")
    case True
    then have "m = (q + 1) * (2 * half)" using m_eq by (simp only: if_True)
    then have "m - n = 2 * half - r" using nqr by (simp add: algebra_simps)
    then show ?thesis using True r by auto
  next
    case False
    then have "m = q * (2 * half)" using m_eq by (simp only: if_False)
    then have "m - n = - r" using nqr by (simp add: algebra_simps)
    then show ?thesis using False r by auto
  qed
  then have "\<bar>m - n\<bar> * 2 ^ 53 \<le> half * 2 ^ 53"
    by (simp add: mult_right_mono)
  then show ?thesis using lo by linarith
qed

subsection \<open>Splitting and parsing\<close>

lemma split_on_nonempty: "split_on sep s \<noteq> []"
  by (induction s) (auto split: list.splits)

lemma length_split_on: "length (split_on sep s) = Suc (length (filter (\<lambda>c. c = sep) s))"
  by (induction s) (auto split: list.splits simp: split_on_nonempty)

lemma split_on_single: "sep \<notin> set s \<Longrightarrow> split_on sep s = [s]"
  by (induction s) (auto split: list.splits)

lemma last_split_on: "last (split_on sep s) = rev (takeWhile (\<lambda>c. c \<noteq> sep) (rev s))"
proof (induction s)
  case Nil
  then show ?case by simp
next
  case (Cons c cs)
  show ?case
  proof (cases "c = sep")
    case True
    then show ?thesis using Cons by (simp add: split_on_nonempty takeWhile_append)
  next
    case False
    show ?thesis
    proof (cases "sep \<in> set cs")
      case True
      then have "1 < length (split_on sep cs)"
        by (simp add: length_split_on filter_empty_conv length_greater_0_conv)
      then obtain p q ps where "split_on sep cs = p # q # ps"
        by (metis One_nat_def length_0_conv length_Cons less_irrefl_nat list.exhaust not_less_zero)
      then show ?thesis using Cons False True by (auto simp: takeWhile_append)
    next
      case nin: False
      then show ?thesis using False by (simp add: split_on_single takeWhile_append)
    qed
  qed
qed

lemma filename_last_segment:
  "split_on slash s ! (length (split_on slash s) - 1) = last_segment s"
  using last_split_on[of slash s] split_on_nonempty[of slash s]
  by (simp add: last_conv_nth last_segment_def)

lemma foldl_decimal:
  "foldl (\<lambda>acc d. acc * 10 + digit_value d) a ds = a * 10 ^ length ds + decimal_value ds"
  by (induction ds arbitrary: a) (auto simp: algebra_simps)

lemma extractSequenceNumber_eq:
  "extractSequenceNumber s = as_number (sequence_of_identifier s)"
  using filename_last_segment[of s]
  by (simp add: extractSequenceNumber_def sequence_of_identifier_def Let_def
      match_leading_digits_def parseInt10_def foldl_decimal)

lemma extractSequenceNumber_cases:
  "extractSequenceNumber s = PosInf \<or> (\<exists>n. extractSequenceNumber s = Fin n)"
  using round_to_double_cases
  by (simp add: extractSequenceNumber_eq sequence_of_identifier_def Let_def)

lemma digit_value_nonneg: "is_digit c \<Longrightarrow> 0 \<le> digit_value c"
  by (simp add: is_digit_def digit_value_def word_le_def)

lemma decimal_value_nonneg: "\<forall>c\<in>set ds. is_digit c \<Longrightarrow> 0 \<le> decimal_value ds"
  by (induction ds) (simp_all add: digit_value_nonneg)

lemma sequence_of_identifier_nonneg: "sequence_of_identifier s = Fin v \<Longrightarrow> 0 \<le> v"
proof -
  assume a: "sequence_of_identifier s = Fin v"
  have "\<forall>c\<in>set (takeWhile is_digit (last_segment s)). is_digit c"
    by (meson set_takeWhileD)
  then have "0 \<le> decimal_value (takeWhile is_digit (last_segment s))"
    by (rule decimal_value_nonneg)
  then show ?thesis
    using a by (simp add: sequence_of_identifier_def Let_def split: if_splits)
qed

subsection \<open>The sort\<close>

lemma mset_sort_insert: "mset (sort_insert cmp x ys) = add_mset x (mset ys)"
  by (induction ys) auto

lemma mset_array_sort: "mset (array_sort cmp xs) = mset xs"
  unfolding array_sort_def by (induction xs) (auto simp: mset_sort_insert)

lemma set_sort_insert: "set (sort_insert cmp x ys) = insert x (set ys)"
  by (induction ys) auto

lemma sorted_sort_insert:
  assumes tot: "\<And>x y. \<not> not_after cmp x y \<Longrightarrow> not_after cmp y x"
    and trans: "\<And>x y z. not_after cmp x y \<Longrightarrow> not_after cmp y z \<Longrightarrow> not_after cmp x z"
    and srt: "sorted_wrt (not_after cmp) ys"
  shows "sorted_wrt (not_after cmp) (sort_insert cmp x ys)"
  using srt
proof (induction ys)
  case Nil
  then show ?case by simp
next
  case (Cons y ys)
  show ?case
  proof (cases "js_positive (cmp x y)")
    case True
    then have "not_after cmp y x" using tot by (simp add: not_after_def)
    then show ?thesis using True Cons by (auto simp: set_sort_insert)
  next
    case False
    then have xy: "not_after cmp x y" by (simp add: not_after_def)
    then have "\<forall>z\<in>set ys. not_after cmp x z" using Cons.prems trans by auto
    then show ?thesis using False xy Cons.prems by simp
  qed
qed

lemma sorted_array_sort:
  assumes tot: "\<And>x y. \<not> not_after cmp x y \<Longrightarrow> not_after cmp y x"
    and trans: "\<And>x y z. not_after cmp x y \<Longrightarrow> not_after cmp y z \<Longrightarrow> not_after cmp x z"
  shows "sorted_wrt (not_after cmp) (array_sort cmp xs)"
  unfolding array_sort_def
  by (induction xs) (auto intro: sorted_sort_insert tot trans)

lemma not_after_dateCompare: "not_after dateCompare a b = (pubDate (data b) \<le> pubDate (data a))"
  by (auto simp: not_after_def dateCompare_def)

subsection \<open>Consistent comparisons\<close>

lemma lc_swap_zero:
  assumes "consistent_comparator lc"
  shows "(lc a b = 0) = (lc b a = 0)"
proof -
  have s: "\<And>a b. (lc a b < 0) = (0 < lc b a)"
    using assms by (simp add: consistent_comparator_def)
  show ?thesis using s[of a b] s[of b a] by linarith
qed

lemma lc_trans_le:
  assumes "consistent_comparator lc" "lc a b \<le> 0" "lc b c \<le> 0"
  shows "lc a c \<le> 0"
  using assms unfolding consistent_comparator_def by blast


lemma codeunit_compare_refl: "codeunit_compare a a = 0"
  by (induction a) auto

lemma codeunit_compare_swap: "(codeunit_compare a b < 0) = (0 < codeunit_compare b a)"
  by (induction a b rule: codeunit_compare.induct) auto

lemma codeunit_compare_trans:
  "codeunit_compare a b \<le> 0 \<Longrightarrow> codeunit_compare b c \<le> 0 \<Longrightarrow> codeunit_compare a c \<le> 0"
proof (induction a arbitrary: b c)
  case Nil
  then show ?case by (cases c) auto
next
  case (Cons x xs)
  then obtain y ys where b: "b = y # ys" by (cases b) auto
  with Cons.prems obtain z zs where c: "c = z # zs" by (cases c) auto
  show ?case
    using Cons.prems Cons.IH[of ys zs] unfolding b c
    by (auto split: if_splits)
qed

lemma codeunit_compare_consistent: "consistent_comparator codeunit_compare"
  unfolding consistent_comparator_def
  using codeunit_compare_refl codeunit_compare_swap codeunit_compare_trans by blast

subsection \<open>The comparison of the category sort\<close>


lemma seq_lt_total:
  assumes "a = PosInf \<or> (\<exists>n. a = Fin n)" "b = PosInf \<or> (\<exists>n. b = Fin n)"
  shows "js_lt a b \<or> a = b \<or> js_lt b a"
  using assms by auto

lemma not_after_categoryComparator:
  "not_after (categoryComparator lc) x y = key_le lc x y"
  using extractSequenceNumber_cases[of "slug x"] extractSequenceNumber_cases[of "slug y"]
  by (auto simp: not_after_def categoryComparator_def key_le_def Let_def)

lemma key_le_total:
  assumes c: "consistent_comparator lc" and n: "\<not> key_le lc x y"
  shows "key_le lc y x"
proof -
  have s: "\<And>a b. (lc a b < 0) = (0 < lc b a)"
    using c by (simp add: consistent_comparator_def)
  note z = lc_swap_zero[OF c, of "categoryOf x" "categoryOf y"]
  note t = seq_lt_total[OF extractSequenceNumber_cases[of "slug x"]
      extractSequenceNumber_cases[of "slug y"]]
  show ?thesis
    using n z t s[of "categoryOf x" "categoryOf y"] s[of "categoryOf y" "categoryOf x"]
    unfolding key_le_def by (auto simp: not_less)
qed





lemma categoryComparator_cong:
  assumes "categoryOf a' = categoryOf a" "slug a' = slug a" "pubDate (data a') = pubDate (data a)"
    "categoryOf b' = categoryOf b" "slug b' = slug b" "pubDate (data b') = pubDate (data b)"
  shows "categoryComparator lc a' b' = categoryComparator lc a b"
  unfolding categoryComparator_def assms ..

lemma categoryComparator_not_NaN: "categoryComparator lc a b \<noteq> NaN"
  using extractSequenceNumber_cases[of "slug a"] extractSequenceNumber_cases[of "slug b"]
  by (auto simp: categoryComparator_def Let_def)

lemma no_digits_PosInf:
  "takeWhile is_digit (last_segment s) = [] \<Longrightarrow> extractSequenceNumber s = PosInf"
  by (simp add: extractSequenceNumber_eq sequence_of_identifier_def)


subsection \<open>The category key and the unique categories\<close>

lemma categoryOf_cases:
  "categoryOf e = (case category (data e) of None \<Rightarrow> uncategorized
     | Some c \<Rightarrow> if c = [] then uncategorized else c)"
  by (cases "category (data e)") (auto simp: categoryOf_def)

lemma categoryOf_nonempty: "categoryOf e \<noteq> []"
  by (simp add: categoryOf_cases uncategorized_def split: option.splits)

lemma set_categoriesSet:
  "set (foldl (\<lambda>s post. set_add s (categoryOf post)) acc posts) = set acc \<union> categoryOf ` set posts"
  by (induction posts arbitrary: acc) (auto simp: set_add_def)

lemma distinct_categoriesSet:
  "distinct acc \<Longrightarrow> distinct (foldl (\<lambda>s post. set_add s (categoryOf post)) acc posts)"
  by (induction posts arbitrary: acc) (auto simp: set_add_def)

lemma set_getUniqueCategories: "set (getUniqueCategories lc posts) = categoryOf ` set posts"
proof -
  have "set (getUniqueCategories lc posts) = set_mset (mset (getUniqueCategories lc posts))"
    by simp
  also have "\<dots> = categoryOf ` set posts"
    unfolding getUniqueCategories_def Let_def mset_array_sort
    by (simp add: set_categoriesSet)
  finally show ?thesis .
qed

lemma distinct_getUniqueCategories: "distinct (getUniqueCategories lc posts)"
proof -
  have "distinct (foldl (\<lambda>s post. set_add s (categoryOf post)) [] posts)"
    by (rule distinct_categoriesSet) simp
  then show ?thesis
    unfolding getUniqueCategories_def Let_def
    by (simp add: mset_eq_imp_distinct_iff[OF mset_array_sort])
qed

lemma sorted_getUniqueCategories:
  assumes c: "consistent_comparator lc"
  shows "sorted_wrt (\<lambda>a b. lc a b \<le> 0) (getUniqueCategories lc posts)"
proof -
  let ?cmp = "\<lambda>a b. Fin (lc a b)"
  have na: "not_after ?cmp = (\<lambda>a b. lc a b \<le> 0)"
    by (auto simp: not_after_def fun_eq_iff)
  have "sorted_wrt (not_after ?cmp) (array_sort ?cmp xs)" for xs
  proof (rule sorted_array_sort)
    show "\<And>x y. \<not> not_after ?cmp x y \<Longrightarrow> not_after ?cmp y x"
      using c unfolding na consistent_comparator_def by (metis not_less order_less_imp_le)
    show "\<And>x y z. not_after ?cmp x y \<Longrightarrow> not_after ?cmp y z \<Longrightarrow> not_after ?cmp x z"
      using lc_trans_le[OF c] unfolding na by blast
  qed
  then show ?thesis unfolding na getUniqueCategories_def Let_def .
qed

lemma member_categoryOf:
  "(c \<in> categoryOf ` set posts) =
      (\<exists>p\<in>set posts. category (data p) = Some c \<and> c \<noteq> [] \<or>
         (category (data p) = None \<or> category (data p) = Some []) \<and> c = uncategorized)"
proof -
  have "(categoryOf p = c) = (category (data p) = Some c \<and> c \<noteq> [] \<or>
         (category (data p) = None \<or> category (data p) = Some []) \<and> c = uncategorized)" for p
    by (cases "category (data p)") (auto simp: categoryOf_def uncategorized_def)
  moreover have "(c \<in> categoryOf ` set posts) = (\<exists>p\<in>set posts. categoryOf p = c)"
    by auto
  ultimately show ?thesis by simp
qed

lemma example_categories:
  "getUniqueCategories codeunit_compare
     [post_z, empty_category_post, post_x, absent_category_post, post_y] =
   [ascii ''A'', ascii ''B'', uncategorized]"
  by code_simp

subsection \<open>Taking an empty category away\<close>

lemma categoryOf_absent_if_empty: "categoryOf (absent_if_empty e) = categoryOf e"
  by (simp add: absent_if_empty_def categoryOf_def)

lemma slug_absent_if_empty: "slug (absent_if_empty e) = slug e"
  by (simp add: absent_if_empty_def)

lemma pubDate_absent_if_empty: "pubDate (data (absent_if_empty e)) = pubDate (data e)"
  by (simp add: absent_if_empty_def)

lemma sort_insert_map:
  assumes "\<And>a b. cmp (f a) (f b) = cmp a b"
  shows "sort_insert cmp (f x) (map f ys) = map f (sort_insert cmp x ys)"
  by (induction ys) (simp_all add: assms)

lemma array_sort_map:
  assumes "\<And>a b. cmp (f a) (f b) = cmp a b"
  shows "array_sort cmp (map f xs) = map f (array_sort cmp xs)"
  unfolding array_sort_def
  by (induction xs) (simp_all add: sort_insert_map[of cmp f, OF assms])

lemma categoriesSet_map:
  "foldl (\<lambda>s post. set_add s (categoryOf post)) acc (map absent_if_empty posts) =
   foldl (\<lambda>s post. set_add s (categoryOf post)) acc posts"
  by (induction posts arbitrary: acc) (simp_all add: categoryOf_absent_if_empty)

subsection \<open>The draft filter\<close>

lemma js_not_iff: "js_not d = (d \<noteq> Some True)"
  by (cases d) auto

section \<open>The claims\<close>



text \<open>
  C2, as amended. \<open>extractSequenceNumber\<close> returns, as a number of the runtime, the
  base-10 value of the leading digits of the segment after the last \<open>/\<close>: that value
  itself when it is at most \<open>2 ^ 53\<close>, and in general a double that differs from it by
  at most the \<open>2 ^ 53\<close>-th part of it, or \<open>Infinity\<close>. When the segment does not start
  with a digit it returns \<open>Infinity\<close>, which is greater than every finite number. It
  maps \<open>langchain/1-basics\<close> to 1, \<open>langchain/basics\<close> to \<open>Infinity\<close> and \<open>10\<close> to 10.
\<close>

theorem extractSequenceNumber_spec:
  "extractSequenceNumber s = as_number (sequence_of_identifier s) \<and>
   (sequence_of_identifier s = Fin v \<and> v \<le> 2 ^ 53 \<longrightarrow> extractSequenceNumber s = Fin v) \<and>
   (sequence_of_identifier s = Fin v \<and> extractSequenceNumber s = Fin m \<longrightarrow>
      \<bar>m - v\<bar> * 2 ^ 53 \<le> v) \<and>
   (takeWhile is_digit (last_segment s) = [] \<longrightarrow> extractSequenceNumber s = PosInf) \<and>
   js_lt (Fin n) PosInf \<and>
   extractSequenceNumber (ascii ''langchain/1-basics'') = Fin 1 \<and>
   extractSequenceNumber (ascii ''langchain/basics'') = PosInf \<and>
   extractSequenceNumber (ascii ''10'') = Fin 10"
proof -
  have "extractSequenceNumber (ascii ''langchain/1-basics'') = Fin 1" by code_simp
  moreover have "extractSequenceNumber (ascii ''langchain/basics'') = PosInf" by code_simp
  moreover have "extractSequenceNumber (ascii ''10'') = Fin 10" by code_simp
  moreover have "sequence_of_identifier s = Fin v \<and> v \<le> 2 ^ 53 \<longrightarrow>
      extractSequenceNumber s = Fin v"
    using round_to_double_exact[of v] by (simp add: extractSequenceNumber_eq)
  moreover have "sequence_of_identifier s = Fin v \<and> extractSequenceNumber s = Fin m \<longrightarrow>
      \<bar>m - v\<bar> * 2 ^ 53 \<le> v"
  proof
    assume a: "sequence_of_identifier s = Fin v \<and> extractSequenceNumber s = Fin m"
    then have "round_to_double v = Fin m"
      using extractSequenceNumber_eq[of s] by auto
    moreover have "0 \<le> v" using a sequence_of_identifier_nonneg by blast
    ultimately show "\<bar>m - v\<bar> * 2 ^ 53 \<le> v" by (rule round_to_double_error[rotated])
  qed
  moreover have "takeWhile is_digit (last_segment s) = [] \<longrightarrow>
      extractSequenceNumber s = PosInf"
    by (simp add: extractSequenceNumber_eq sequence_of_identifier_def)
  moreover have "js_lt (Fin n) PosInf" by simp
  moreover note extractSequenceNumber_eq[of s]
  ultimately show ?thesis by blast
qed

theorem extractSequenceNumber_spec_witness:
  "sequence_of_identifier (ascii ''notes/9007199254740993-a'') = Fin 9007199254740993 \<and>
   extractSequenceNumber (ascii ''notes/9007199254740993-a'') = Fin 9007199254740992 \<and>
   \<bar>9007199254740992 - 9007199254740993\<bar> * 2 ^ 53 \<le> (9007199254740993 :: int) \<and>
   sequence_of_identifier (ascii ''langchain/1-basics'') = Fin 1 \<and>
   (1 :: int) \<le> 2 ^ 53 \<and>
   extractSequenceNumber (ascii ''langchain/1-basics'') = Fin 1 \<and>
   takeWhile is_digit (last_segment (ascii ''langchain/basics'')) = [] \<and>
   extractSequenceNumber (ascii ''langchain/basics'') = PosInf"
proof -
  have a: "sequence_of_identifier (ascii ''notes/9007199254740993-a'') = Fin 9007199254740993"
    "extractSequenceNumber (ascii ''notes/9007199254740993-a'') = Fin 9007199254740992"
    by code_simp+
  have b: "sequence_of_identifier (ascii ''langchain/1-basics'') = Fin 1"
    by code_simp
  have c: "takeWhile is_digit (last_segment (ascii ''langchain/basics'')) = []"
    by code_simp
  note t1 = extractSequenceNumber_spec[of "ascii ''notes/9007199254740993-a''"
      9007199254740993 9007199254740992]
  note t2 = extractSequenceNumber_spec[of "ascii ''langchain/1-basics''" 1]
  note t3 = extractSequenceNumber_spec[of "ascii ''langchain/basics''"]
  have "\<bar>9007199254740992 - 9007199254740993\<bar> * 2 ^ 53 \<le> (9007199254740993 :: int)"
    using t1 a by blast
  moreover have "(1 :: int) \<le> 2 ^ 53" by simp
  moreover have "extractSequenceNumber (ascii ''langchain/1-basics'') = Fin 1"
    using t2 by blast
  moreover have "extractSequenceNumber (ascii ''langchain/basics'') = PosInf"
    using t3 c by blast
  ultimately show ?thesis using a b c by blast
qed

text \<open>
  C2 as stated fails where the integer is not a double: the sixteen digits
  \<open>9007199254740993\<close> are returned as 9007199254740992, and 309 digits \<open>9\<close>, which
  the pattern matches, are returned as \<open>Infinity\<close>, the value that stands for no
  sequence number.
\<close>

theorem extractSequenceNumber_rounding_counterexample:
  "sequence_of_identifier (ascii ''9007199254740993'') = Fin 9007199254740993 \<and>
   extractSequenceNumber (ascii ''9007199254740993'') = Fin 9007199254740992 \<and>
   match_leading_digits (replicate 309 0x39) = Some (replicate 309 0x39) \<and>
   extractSequenceNumber (replicate 309 0x39) = PosInf"
proof -
  have "sequence_of_identifier (ascii ''9007199254740993'') = Fin 9007199254740993"
    by code_simp
  moreover have "extractSequenceNumber (ascii ''9007199254740993'') = Fin 9007199254740992"
    by code_simp
  moreover have "match_leading_digits (replicate 309 0x39) = Some (replicate 309 0x39)"
    by (simp add: match_leading_digits_def is_digit_def)
  moreover have "extractSequenceNumber (replicate 309 0x39) = PosInf"
    by code_simp
  ultimately show ?thesis by blast
qed

text \<open>
  C3, as amended. A record without category is keyed by the fallback literal of the
  source, the three code units U+672A U+5206 U+7C7B; a record whose category is
  present and not empty is keyed by that category unchanged. This key is what
  \<open>getUniqueCategories\<close> collects and what the comparison of
  \<open>getSortedPostsByCategory\<close> reads: a non-zero collation result of the two keys is
  the result of the comparison, and two pairs of records that agree in key, slug and
  date compare alike.
\<close>

theorem category_key_fallback:
  "(category (data e) = None \<longrightarrow> categoryOf e = uncategorized) \<and>
   (category (data e) = Some c \<and> c \<noteq> [] \<longrightarrow> categoryOf e = c) \<and>
   uncategorized = [0x672A, 0x5206, 0x7C7B] \<and>
   set (getUniqueCategories lc posts) = categoryOf ` set posts \<and>
   (lc (categoryOf a) (categoryOf b) \<noteq> 0 \<longrightarrow>
      categoryComparator lc a b = Fin (lc (categoryOf a) (categoryOf b))) \<and>
   (categoryOf a' = categoryOf a \<and> slug a' = slug a \<and> pubDate (data a') = pubDate (data a) \<and>
    categoryOf b' = categoryOf b \<and> slug b' = slug b \<and> pubDate (data b') = pubDate (data b) \<longrightarrow>
      categoryComparator lc a' b' = categoryComparator lc a b)"
proof -
  have "lc (categoryOf a) (categoryOf b) \<noteq> 0 \<longrightarrow>
      categoryComparator lc a b = Fin (lc (categoryOf a) (categoryOf b))"
    by (simp add: categoryComparator_def)
  then show ?thesis
    using categoryComparator_cong[of a' a b' b lc]
    by (simp add: set_getUniqueCategories categoryOf_cases uncategorized_def)
qed

theorem category_key_fallback_witness:
  "category (data absent_category_post) = None \<and>
   categoryOf absent_category_post = uncategorized \<and>
   category (data post_x) = Some (ascii ''A'') \<and> ascii ''A'' \<noteq> [] \<and>
   categoryOf post_x = ascii ''A'' \<and>
   codeunit_compare (categoryOf post_x) (categoryOf absent_category_post) \<noteq> 0 \<and>
   categoryComparator codeunit_compare post_x absent_category_post =
     Fin (codeunit_compare (categoryOf post_x) (categoryOf absent_category_post)) \<and>
   categoryOf labelled_uncategorized_post = categoryOf absent_category_post \<and>
   slug labelled_uncategorized_post = slug absent_category_post \<and>
   pubDate (data labelled_uncategorized_post) = pubDate (data absent_category_post) \<and>
   categoryComparator codeunit_compare post_x labelled_uncategorized_post =
     categoryComparator codeunit_compare post_x absent_category_post"
proof -
  have d: "category (data absent_category_post) = None"
    "category (data post_x) = Some (ascii ''A'')" "ascii ''A'' \<noteq> []"
    by (simp_all add: absent_category_post_def post_x_def ascii_def)
  have n: "codeunit_compare (categoryOf post_x) (categoryOf absent_category_post) \<noteq> 0"
    by code_simp
  have s: "categoryOf labelled_uncategorized_post = categoryOf absent_category_post"
    "slug labelled_uncategorized_post = slug absent_category_post"
    "pubDate (data labelled_uncategorized_post) = pubDate (data absent_category_post)"
    by (simp_all add: absent_category_post_def labelled_uncategorized_post_def categoryOf_def
        uncategorized_def)
  note t1 = category_key_fallback[of absent_category_post "ascii ''A''" codeunit_compare "[]"
      post_x absent_category_post post_x labelled_uncategorized_post]
  note t2 = category_key_fallback[of post_x "ascii ''A''" codeunit_compare "[]"
      post_x absent_category_post post_x post_x]
  have "categoryOf absent_category_post = uncategorized" using t1 d by blast
  moreover have "categoryOf post_x = ascii ''A''" using t2 d by blast
  moreover have "categoryComparator codeunit_compare post_x absent_category_post =
     Fin (codeunit_compare (categoryOf post_x) (categoryOf absent_category_post))"
    using t1 n by blast
  moreover have "categoryComparator codeunit_compare post_x labelled_uncategorized_post =
     categoryComparator codeunit_compare post_x absent_category_post"
    using t1 s by blast
  ultimately show ?thesis using d n s by blast
qed

text \<open>
  C3 as stated fails twice. The only category of a collection whose one record has no
  category is not the string \<open>uncategorized\<close>, and the only category of a collection
  whose one record has the empty string as its category is not the empty string.
\<close>

theorem category_key_fallback_counterexample:
  "category (data absent_category_post) = None \<and>
   getUniqueCategories codeunit_compare [absent_category_post] \<noteq> [ascii ''uncategorized''] \<and>
   category (data empty_category_post) = Some [] \<and>
   getUniqueCategories codeunit_compare [empty_category_post] \<noteq> [] # []"
proof -
  have "getUniqueCategories codeunit_compare [absent_category_post] = [uncategorized]"
    by code_simp
  moreover have "getUniqueCategories codeunit_compare [empty_category_post] = [uncategorized]"
    by code_simp
  moreover have "uncategorized \<noteq> ascii ''uncategorized''"
    by (simp add: uncategorized_def ascii_def)
  ultimately show ?thesis
    by (simp add: absent_category_post_def empty_category_post_def uncategorized_def)
qed

text \<open>
  C4. In production mode \<open>getFilteredPosts\<close> returns exactly the entries whose draft flag
  is not \<open>true\<close>; otherwise it returns all entries. Both keep the stored order.
\<close>

theorem getFilteredPosts_spec:
  "getFilteredPosts True stored = filter (\<lambda>e. draft (data e) \<noteq> Some True) stored \<and>
   getFilteredPosts False stored = stored"
  by (simp add: getFilteredPosts_def getCollection_def js_not_iff)

text \<open>
  C5. The result of \<open>getSortedPosts\<close> is non-increasing in the publication date: every
  element is at least as recent as each element after it.
\<close>

theorem getSortedPosts_descending:
  "sorted_wrt (\<lambda>x y. pubDate (data y) \<le> pubDate (data x)) (getSortedPosts posts)"
proof -
  have "sorted_wrt (not_after dateCompare) (array_sort dateCompare posts)"
    by (rule sorted_array_sort) (auto simp: not_after_dateCompare)
  then show ?thesis
    unfolding getSortedPosts_def by (simp add: not_after_dateCompare[abs_def])
qed

text \<open>
  C6, as amended. With a consistent collation the result of \<open>getUniqueCategories\<close> has
  no duplicates, is ordered by the collation, and contains a string \<open>c\<close> exactly when
  some record has the non-empty category \<open>c\<close>, or has no category or the empty string as
  its category and \<open>c\<close> is the fallback literal.
\<close>

theorem getUniqueCategories_spec:
  assumes "consistent_comparator lc"
  shows "distinct (getUniqueCategories lc posts) \<and>
    (c \<in> set (getUniqueCategories lc posts)) =
      (\<exists>p\<in>set posts. category (data p) = Some c \<and> c \<noteq> [] \<or>
         (category (data p) = None \<or> category (data p) = Some []) \<and> c = uncategorized) \<and>
    sorted_wrt (\<lambda>a b. lc a b \<le> 0) (getUniqueCategories lc posts)"
  using distinct_getUniqueCategories[of lc posts] sorted_getUniqueCategories[OF assms, of posts]
    member_categoryOf[of c posts]
  by (simp only: set_getUniqueCategories simp_thms)

theorem getUniqueCategories_spec_witness:
  "consistent_comparator codeunit_compare \<and>
   getUniqueCategories codeunit_compare
     [post_z, empty_category_post, post_x, absent_category_post, post_y] =
     [ascii ''A'', ascii ''B'', uncategorized] \<and>
   distinct [ascii ''A'', ascii ''B'', uncategorized] \<and>
   sorted_wrt (\<lambda>a b. codeunit_compare a b \<le> 0) [ascii ''A'', ascii ''B'', uncategorized]"
  using getUniqueCategories_spec[OF codeunit_compare_consistent,
      of "[post_z, empty_category_post, post_x, absent_category_post, post_y]" uncategorized]
    codeunit_compare_consistent
  by (simp only: example_categories simp_thms)

text \<open>
  C6 as stated fails for a record whose category is the empty string: the record has
  the category \<open>c\<close> for the empty \<open>c\<close>, and the result does not contain it.
\<close>

theorem getUniqueCategories_empty_category_counterexample:
  "\<not> (([] \<in> set (getUniqueCategories codeunit_compare [empty_category_post])) =
      (category (data empty_category_post) = Some [] \<or>
       category (data empty_category_post) = None \<and> [] = uncategorized))"
proof -
  have "getUniqueCategories codeunit_compare [empty_category_post] = [uncategorized]"
    by code_simp
  then show ?thesis by (simp add: uncategorized_def empty_category_post_def)
qed

text \<open>
  C7. \<open>getSortedPosts\<close> and \<open>getSortedPostsByCategory\<close> return the entries they were
  given, each as often as it was given and with every field as it was: the result is a
  permutation of the input.
\<close>

theorem sorts_permute:
  "mset (getSortedPosts posts) = mset posts \<and>
   mset (getSortedPostsByCategory lc posts) = mset posts"
  by (simp add: getSortedPosts_def getSortedPostsByCategory_def mset_array_sort)

text \<open>
  C8. The comparison of \<open>getSortedPostsByCategory\<close> never results in \<open>NaN\<close>, although
  \<open>Infinity - Infinity\<close> is \<open>NaN\<close>: when the categories compare equal and neither slug has
  a sequence number, both sequence numbers are \<open>Infinity\<close>, they are not unequal, and the
  result is the difference of the dates. With a consistent collation any two entries
  are comparable: one of them is not after the other.
\<close>

theorem categoryComparator_total:
  "categoryComparator lc a b \<noteq> NaN \<and>
   js_sub PosInf PosInf = NaN \<and>
   (lc (categoryOf a) (categoryOf b) = 0 \<and>
    takeWhile is_digit (last_segment (slug a)) = [] \<and>
    takeWhile is_digit (last_segment (slug b)) = [] \<longrightarrow>
      extractSequenceNumber (slug a) = PosInf \<and>
      extractSequenceNumber (slug b) = PosInf \<and>
      \<not> js_strict_neq (extractSequenceNumber (slug a)) (extractSequenceNumber (slug b)) \<and>
      categoryComparator lc a b = Fin (pubDate (data b) - pubDate (data a))) \<and>
   (consistent_comparator lc \<longrightarrow>
      not_after (categoryComparator lc) a b \<or> not_after (categoryComparator lc) b a)"
proof -
  have "categoryComparator lc a b = Fin (pubDate (data b) - pubDate (data a))"
    if "lc (categoryOf a) (categoryOf b) = 0" "extractSequenceNumber (slug a) = PosInf"
      "extractSequenceNumber (slug b) = PosInf"
    using that by (simp add: categoryComparator_def)
  moreover have "not_after (categoryComparator lc) a b \<or> not_after (categoryComparator lc) b a"
    if "consistent_comparator lc"
    using key_le_total[OF that, of a b] by (auto simp: not_after_categoryComparator)
  ultimately show ?thesis
    using categoryComparator_not_NaN[of lc a b] no_digits_PosInf[of "slug a"]
      no_digits_PosInf[of "slug b"]
    by auto
qed

theorem categoryComparator_total_witness:
  "consistent_comparator codeunit_compare \<and>
   codeunit_compare (categoryOf absent_category_post) (categoryOf unnumbered_post) = 0 \<and>
   takeWhile is_digit (last_segment (slug absent_category_post)) = [] \<and>
   takeWhile is_digit (last_segment (slug unnumbered_post)) = [] \<and>
   categoryComparator codeunit_compare absent_category_post unnumbered_post = Fin 5 \<and>
   (not_after (categoryComparator codeunit_compare) absent_category_post unnumbered_post \<or>
    not_after (categoryComparator codeunit_compare) unnumbered_post absent_category_post)"
proof -
  have h: "codeunit_compare (categoryOf absent_category_post) (categoryOf unnumbered_post) = 0"
    "takeWhile is_digit (last_segment (slug absent_category_post)) = []"
    "takeWhile is_digit (last_segment (slug unnumbered_post)) = []"
    by code_simp+
  have d: "pubDate (data unnumbered_post) - pubDate (data absent_category_post) = 5"
    by (simp add: unnumbered_post_def absent_category_post_def)
  note t = categoryComparator_total[of codeunit_compare absent_category_post unnumbered_post]
  have "categoryComparator codeunit_compare absent_category_post unnumbered_post = Fin 5"
    using t h d by simp
  moreover have "not_after (categoryComparator codeunit_compare) absent_category_post unnumbered_post \<or>
    not_after (categoryComparator codeunit_compare) unnumbered_post absent_category_post"
    using t codeunit_compare_consistent by blast
  ultimately show ?thesis using h codeunit_compare_consistent by blast
qed

text \<open>
  C9. A record whose category is the empty string is treated as one without category:
  its key is the fallback literal, the key it would have with the category taken away;
  no key is the empty string and the empty string is never in the result of
  \<open>getUniqueCategories\<close>; taking the empty categories of a collection away changes
  neither the result of \<open>getUniqueCategories\<close> nor the order that
  \<open>getSortedPostsByCategory\<close> gives to the records.
\<close>

theorem empty_category_is_absent:
  "(category (data e) = Some [] \<longrightarrow>
      category (data (absent_if_empty e)) = None \<and> categoryOf e = uncategorized) \<and>
   categoryOf (absent_if_empty e) = categoryOf e \<and>
   categoryOf e \<noteq> [] \<and>
   [] \<notin> set (getUniqueCategories lc posts) \<and>
   getUniqueCategories lc (map absent_if_empty posts) = getUniqueCategories lc posts \<and>
   getSortedPostsByCategory lc (map absent_if_empty posts) =
     map absent_if_empty (getSortedPostsByCategory lc posts)"
proof -
  have "categoryComparator lc (absent_if_empty a) (absent_if_empty b) = categoryComparator lc a b"
    for a b
    by (rule categoryComparator_cong)
      (simp_all add: categoryOf_absent_if_empty slug_absent_if_empty pubDate_absent_if_empty)
  then have "getSortedPostsByCategory lc (map absent_if_empty posts) =
     map absent_if_empty (getSortedPostsByCategory lc posts)"
    unfolding getSortedPostsByCategory_def by (rule array_sort_map)
  moreover have "getUniqueCategories lc (map absent_if_empty posts) = getUniqueCategories lc posts"
    by (simp add: getUniqueCategories_def categoriesSet_map)
  moreover have "[] \<notin> set (getUniqueCategories lc posts)"
    using categoryOf_nonempty by (metis (no_types) imageE set_getUniqueCategories)
  moreover have "category (data e) = Some [] \<longrightarrow>
      category (data (absent_if_empty e)) = None \<and> categoryOf e = uncategorized"
    by (simp add: absent_if_empty_def categoryOf_def)
  ultimately show ?thesis
    by (simp add: categoryOf_absent_if_empty categoryOf_nonempty)
qed

theorem empty_category_is_absent_witness:
  "category (data empty_category_post) = Some [] \<and>
   category (data (absent_if_empty empty_category_post)) = None \<and>
   categoryOf empty_category_post = uncategorized \<and>
   getUniqueCategories codeunit_compare [empty_category_post] = [uncategorized] \<and>
   getUniqueCategories codeunit_compare (map absent_if_empty [empty_category_post]) = [uncategorized]"
proof -
  have h: "category (data empty_category_post) = Some []"
    by (simp add: empty_category_post_def)
  have u: "getUniqueCategories codeunit_compare [empty_category_post] = [uncategorized]"
    by code_simp
  note t = empty_category_is_absent[of empty_category_post codeunit_compare "[empty_category_post]"]
  show ?thesis using t h u by simp
qed

text \<open>
  C10. \<open>isSameCategory\<close> is plain equality of the two optional categories: two missing
  categories are the same, a missing category and the fallback literal are not, although
  the category sort and \<open>getUniqueCategories\<close> give both the same key.
\<close>

theorem isSameCategory_no_fallback:
  "isSameCategory a b = (a = b) \<and>
   isSameCategory None None \<and>
   \<not> isSameCategory None (Some uncategorized) \<and>
   \<not> isSameCategory (Some uncategorized) None \<and>
   js_or None uncategorized = js_or (Some uncategorized) uncategorized"
  by (simp add: isSameCategory_def uncategorized_def)

end
